theory Spec2Isabelle
  imports Main "HOL-Library.Sublist"
begin

section \<open>The directory reporter \<^verbatim>\<open>example.ts\<close>\<close>

text \<open>
  The whole program is one \<^verbatim>\<open>for await\<close> loop over the asynchronous iterator returned
  by the library function \<^verbatim>\<open>walk\<close>:
  \<^verbatim>\<open>
  for await (const entry of walk(Deno.env.get("HOME") + "/Desktop")) {
    if (entry.isFile) {
      console.log(`File: ${entry.path}`);
    } else if (entry.isDirectory) {
      console.log(`Directory: ${entry.path}`);
    }
  }
  \<close>
  The walker is an imported library, so it is a parameter of the model. Everything the
  script itself does to the outside world is recorded, in order, in a trace of events.
\<close>

subsection \<open>Data\<close>

text \<open>
  A walk entry as the script reads it: the fields \<^verbatim>\<open>path\<close>, \<^verbatim>\<open>isFile\<close> and
  \<^verbatim>\<open>isDirectory\<close>. The two flags are independent booleans here; nothing in the script
  relies on their being exclusive.
\<close>

record WalkEntry =
  path :: string
  isFile :: bool
  isDirectory :: bool

text \<open>
  The second, optional parameter of \<^verbatim>\<open>walk\<close> is an options object of the library. The
  script never builds one, so the type stays opaque; \<open>None\<close> is the absent argument.
\<close>

typedecl WalkOptions

text \<open>
  What the asynchronous iterator does over its life, seen through successive calls of
  \<^verbatim>\<open>next()\<close>: it reports exhaustion, or hands out an entry and continues, or rejects with
  an error value. The type is coinductive, so a walk that never ends is a value too.
\<close>

codatatype 'e walk_iter =
    Done
  | Yield WalkEntry "'e walk_iter"
  | Throw 'e

text \<open>
  The observable actions of the script: reading an environment variable, calling the
  walker (root argument and options argument), asking the iterator for its next result,
  and one call of \<^verbatim>\<open>console.log\<close>.
\<close>

datatype event =
    EnvGet string
  | WalkCall string "WalkOptions option"
  | Next
  | ConsoleLog string

text \<open>How a run that returns ends: the loop ran to exhaustion, or an error left the script
  uncaught.\<close>

datatype 'e outcome = Completed | Uncaught 'e

text \<open>The process environment, as the name/value pairs it holds.\<close>

type_synonym env = "(string \<times> string) list"

subsection \<open>The operations of the script\<close>

text \<open>\<^verbatim>\<open>Deno.env.get(key)\<close>: the value of the variable, or \<^verbatim>\<open>undefined\<close> (here \<open>None\<close>)
  when the variable is not set. The permission to read the environment is taken as
  granted.\<close>

definition env_get :: "env \<Rightarrow> string \<Rightarrow> string option" where
  "env_get env key = map_of env key"

text \<open>JavaScript's conversion to a string, on the values \<^verbatim>\<open>Deno.env.get\<close> can return:
  a string is itself and \<^verbatim>\<open>undefined\<close> becomes the nine letters of its name.\<close>

definition to_string :: "string option \<Rightarrow> string" where
  "to_string v = (case v of None \<Rightarrow> ''undefined'' | Some s \<Rightarrow> s)"

text \<open>The operator \<^verbatim>\<open>+\<close> with a string as right operand: the left operand is converted
  to a string and the two are concatenated.\<close>

definition plus_string :: "string option \<Rightarrow> string \<Rightarrow> string" where
  "plus_string v s = to_string v @ s"

text \<open>The argument expression of the call of \<^verbatim>\<open>walk\<close>.\<close>

definition root_path :: "env \<Rightarrow> string" where
  "root_path env = plus_string (env_get env ''HOME'') ''/Desktop''"

text \<open>\<^verbatim>\<open>console.log(s)\<close> is one more event at the end of the trace.\<close>

definition console_log :: "string \<Rightarrow> event list \<Rightarrow> event list" where
  "console_log s tr = tr @ [ConsoleLog s]"

text \<open>The body of the loop, run on one entry.\<close>

definition body :: "WalkEntry \<Rightarrow> event list \<Rightarrow> event list" where
  "body entry tr =
    (if isFile entry then console_log (''File: '' @ path entry) tr
     else if isDirectory entry then console_log (''Directory: '' @ path entry) tr
     else tr)"

text \<open>
  The loop. Each turn asks the iterator for its next result. Exhaustion ends the loop, a
  rejection leaves it with the error (there is no \<^verbatim>\<open>try\<close> around it), and an entry is given
  to the body before the next turn begins. On a walk that never ends the loop does not
  return, which is the value \<open>None\<close>.
\<close>

partial_function (option) for_await ::
  "'e walk_iter \<Rightarrow> event list \<Rightarrow> (event list \<times> 'e outcome) option" where
  "for_await it tr =
    (case it of
       Done \<Rightarrow> Some (tr @ [Next], Completed)
     | Throw err \<Rightarrow> Some (tr @ [Next], Uncaught err)
     | Yield entry it' \<Rightarrow> for_await it' (body entry (tr @ [Next])))"

text \<open>The script: evaluate the argument, call the walker with that one argument, loop.\<close>

definition example ::
  "env \<Rightarrow> (string \<Rightarrow> WalkOptions option \<Rightarrow> 'e walk_iter) \<Rightarrow> (event list \<times> 'e outcome) option" where
  "example env walk =
    (let root = plus_string (env_get env ''HOME'') ''/Desktop'';
         it = walk root None
     in for_await it [EnvGet ''HOME'', WalkCall root None])"

subsection \<open>Reading a trace\<close>

text \<open>What an event writes to standard output: \<^verbatim>\<open>console.log\<close> writes its argument and a
  newline, the other events write nothing.\<close>

fun written :: "event \<Rightarrow> string" where
  "written (ConsoleLog s) = s @ [CHR 0x0A]"
| "written _ = []"

definition stdout_of :: "event list \<Rightarrow> string" where
  "stdout_of tr = concat (map written tr)"

text \<open>The arguments of the \<^verbatim>\<open>console.log\<close> calls of a trace, in order.\<close>

fun logged :: "event \<Rightarrow> string list" where
  "logged (ConsoleLog s) = [s]"
| "logged _ = []"

definition lines_of :: "event list \<Rightarrow> string list" where
  "lines_of tr = concat (map logged tr)"

text \<open>The calls of the walker in a trace: root argument and options argument of each.\<close>

fun walk_call :: "event \<Rightarrow> (string \<times> WalkOptions option) list" where
  "walk_call (WalkCall r opts) = [(r, opts)]"
| "walk_call _ = []"

definition walk_calls :: "event list \<Rightarrow> (string \<times> WalkOptions option) list" where
  "walk_calls tr = concat (map walk_call tr)"

subsection \<open>Walks that end\<close>

text \<open>The iterator that hands out the entries of a list, in order, and then either reports
  exhaustion (\<open>None\<close>) or rejects with an error (\<open>Some err\<close>).\<close>

primrec walk_of :: "WalkEntry list \<Rightarrow> 'e option \<Rightarrow> 'e walk_iter" where
  "walk_of [] fin = (case fin of None \<Rightarrow> Done | Some err \<Rightarrow> Throw err)"
| "walk_of (entry # rest) fin = Yield entry (walk_of rest fin)"

text \<open>The outcome that belongs to each way of ending.\<close>

definition ending :: "'e option \<Rightarrow> 'e outcome" where
  "ending fin = (case fin of None \<Rightarrow> Completed | Some err \<Rightarrow> Uncaught err)"

text \<open>The events of one turn of the loop on an entry: the request, then the body.\<close>

definition iteration :: "WalkEntry \<Rightarrow> event list" where
  "iteration entry = body entry [Next]"

section \<open>Basic facts\<close>

lemma body_extends: "body entry tr = tr @ body entry []"
  by (simp add: body_def console_log_def)

lemma body_after_request: "body entry (tr @ [Next]) = tr @ iteration entry"
  unfolding iteration_def by (subst body_extends, subst (2) body_extends) simp

lemma for_await_walk_of:
  "for_await (walk_of es fin) tr =
     Some (tr @ concat (map iteration es) @ [Next], ending fin)"
proof (induction es arbitrary: tr)
  case Nil
  show ?case
    by (subst for_await.simps) (simp add: ending_def split: option.split)
next
  case (Cons entry rest)
  show ?case
    by (subst for_await.simps) (simp add: Cons.IH body_after_request)
qed

lemma example_unfold:
  "example env walk =
     for_await (walk (root_path env) None) [EnvGet ''HOME'', WalkCall (root_path env) None]"
  by (simp add: example_def root_path_def Let_def)

lemma example_walk_of:
  assumes "walk (root_path env) None = walk_of es fin"
  shows "example env walk =
     Some ([EnvGet ''HOME'', WalkCall (root_path env) None] @ concat (map iteration es) @ [Next],
           ending fin)"
  by (simp only: example_unfold assms for_await_walk_of)

lemma iteration_events:
  "iteration entry =
     Next # (if isFile entry then [ConsoleLog (''File: '' @ path entry)]
             else if isDirectory entry then [ConsoleLog (''Directory: '' @ path entry)]
             else [])"
  by (simp add: iteration_def body_def console_log_def)

lemma stdout_of_append: "stdout_of (tr @ tr') = stdout_of tr @ stdout_of tr'"
  by (simp add: stdout_of_def)

lemma lines_of_append: "lines_of (tr @ tr') = lines_of tr @ lines_of tr'"
  by (simp add: lines_of_def)

lemma walk_calls_append: "walk_calls (tr @ tr') = walk_calls tr @ walk_calls tr'"
  by (simp add: walk_calls_def)

lemma stdout_of_iterations:
  "stdout_of (concat (map iteration es)) = concat (map (\<lambda>e. stdout_of (iteration e)) es)"
  by (induction es) (simp_all add: stdout_of_append, simp add: stdout_of_def)

lemma lines_of_iterations:
  "lines_of (concat (map iteration es)) = concat (map (\<lambda>e. lines_of (iteration e)) es)"
  by (induction es) (simp_all add: lines_of_append, simp add: lines_of_def)

lemma walk_calls_iterations: "walk_calls (concat (map iteration es)) = []"
  by (induction es) (simp_all add: walk_calls_append, simp_all add: walk_calls_def iteration_events)

lemma stdout_of_iteration:
  "stdout_of (iteration e) =
     (if isFile e then ''File: '' @ path e @ [CHR 0x0A]
      else if isDirectory e then ''Directory: '' @ path e @ [CHR 0x0A]
      else [])"
  by (simp add: iteration_events stdout_of_def)

lemma lines_of_iteration:
  "lines_of (iteration e) =
     (if isFile e then [''File: '' @ path e]
      else if isDirectory e then [''Directory: '' @ path e]
      else [])"
  by (simp add: iteration_events lines_of_def)

lemma requests_of_iterations:
  "length (filter (\<lambda>ev. ev = Next) (concat (map iteration es))) = length es"
  by (induction es) (simp_all add: iteration_events)

lemma stdout_of_run:
  "stdout_of ([EnvGet k, WalkCall r opts] @ concat (map iteration es) @ [Next]) =
     concat (map (\<lambda>e. stdout_of (iteration e)) es)"
proof -
  have "stdout_of [EnvGet k, WalkCall r opts] = []" and "stdout_of [Next] = []"
    by (simp_all add: stdout_of_def)
  then show ?thesis
    by (simp only: stdout_of_append stdout_of_iterations append_Nil append_Nil2)
qed

lemma lines_of_run:
  "lines_of ([EnvGet k, WalkCall r opts] @ concat (map iteration es) @ [Next]) =
     concat (map (\<lambda>e. lines_of (iteration e)) es)"
proof -
  have "lines_of [EnvGet k, WalkCall r opts] = []" and "lines_of [Next] = []"
    by (simp_all add: lines_of_def)
  then show ?thesis
    by (simp only: lines_of_append lines_of_iterations append_Nil append_Nil2)
qed

lemma walk_calls_run:
  "walk_calls ([EnvGet k, WalkCall r opts] @ concat (map iteration es) @ [Next]) = [(r, opts)]"
proof -
  have "walk_calls [EnvGet k, WalkCall r opts] = [(r, opts)]" and "walk_calls [Next] = []"
    by (simp_all add: walk_calls_def)
  then show ?thesis
    by (simp only: walk_calls_append walk_calls_iterations append_Nil2)
qed

lemma stdout_of_iterations_filter:
  "concat (map (\<lambda>e. stdout_of (iteration e)) es) =
     concat (map (\<lambda>e. (if isFile e then ''File: '' else ''Directory: '') @ path e @ [CHR 0x0A])
               (filter (\<lambda>e. isFile e \<or> isDirectory e) es))"
  by (induction es) (simp_all add: stdout_of_iteration)

lemma requests_of_run:
  "length (filter (\<lambda>ev. ev = Next)
      ([EnvGet k, WalkCall r opts] @ concat (map iteration es) @ [Next])) = Suc (length es)"
  by (simp add: requests_of_iterations)

lemma lines_of_file_iterations:
  assumes "\<forall>e\<in>set fs. isFile e"
  shows "concat (map (\<lambda>e. lines_of (iteration e)) fs) = map (\<lambda>e. ''File: '' @ path e) fs"
  using assms by (induction fs) (simp_all add: lines_of_iteration)

lemma lines_of_body: "lines_of (body e []) = lines_of (iteration e)"
  by (simp add: iteration_events body_def console_log_def lines_of_def)

lemma no_directory_line_of_files:
  "filter (prefix ''Directory: '') (map (\<lambda>e. ''File: '' @ path e) fs) = []"
  by (induction fs) simp_all

lemma directory_lines_of_entry:
  "length (filter (prefix ''Directory: '') (lines_of (iteration e))) \<le> 1"
  by (simp add: lines_of_iteration)

section \<open>The claims\<close>

subsection \<open>C1: one entry\<close>

text \<open>
  Claim C1. Whenever the walker hands out an entry, the loop records its request and then
  exactly the event \<open>ConsoleLog\<close> of \<^verbatim>\<open>File: <path>\<close> if the entry is a file, otherwise
  exactly that of \<^verbatim>\<open>Directory: <path>\<close> if it is a directory, and otherwise no event at
  all; in each case the loop goes on with the rest of the walk, so the skip is no error.
  On standard output the body adds the corresponding line, or nothing.
\<close>

theorem entry_reported:
  "for_await (Yield entry it) tr =
     for_await it
       (tr @ Next #
          (if isFile entry then [ConsoleLog (''File: '' @ path entry)]
           else if isDirectory entry then [ConsoleLog (''Directory: '' @ path entry)]
           else []))
   \<and> stdout_of (body entry tr) =
       stdout_of tr @
          (if isFile entry then ''File: '' @ path entry @ [CHR 0x0A]
           else if isDirectory entry then ''Directory: '' @ path entry @ [CHR 0x0A]
           else [])"
proof
  show "for_await (Yield entry it) tr =
     for_await it
       (tr @ Next #
          (if isFile entry then [ConsoleLog (''File: '' @ path entry)]
           else if isDirectory entry then [ConsoleLog (''Directory: '' @ path entry)]
           else []))"
    by (subst for_await.simps) (simp add: body_after_request iteration_events)
  show "stdout_of (body entry tr) =
       stdout_of tr @
          (if isFile entry then ''File: '' @ path entry @ [CHR 0x0A]
           else if isDirectory entry then ''Directory: '' @ path entry @ [CHR 0x0A]
           else [])"
    by (simp add: body_def console_log_def stdout_of_def)
qed

theorem entry_reported_witness:
  "for_await (Yield \<lparr>path = ''/h/Desktop/l'', isFile = False, isDirectory = False\<rparr>
               (Yield \<lparr>path = ''/h/Desktop/d'', isFile = False, isDirectory = True\<rparr>
                  (Done :: unit walk_iter))) []
     = Some ([Next, Next, ConsoleLog ''Directory: /h/Desktop/d'', Next], Completed)"
  using entry_reported
          [of "\<lparr>path = ''/h/Desktop/l'', isFile = False, isDirectory = False\<rparr>"
              "Yield \<lparr>path = ''/h/Desktop/d'', isFile = False, isDirectory = True\<rparr>
                 (Done :: unit walk_iter)" "[]"]
        entry_reported
          [of "\<lparr>path = ''/h/Desktop/d'', isFile = False, isDirectory = True\<rparr>"
              "Done :: unit walk_iter" "[Next]"]
  by (simp add: for_await.simps)

subsection \<open>C2 and C3: the root path\<close>

text \<open>
  Claim C2, as stated, fails. With no variable \<^verbatim>\<open>HOME\<close> in the environment,
  \<^verbatim>\<open>Deno.env.get\<close> returns \<^verbatim>\<open>undefined\<close>, and \<^verbatim>\<open>+\<close> converts that to the string
  \<^verbatim>\<open>undefined\<close>: on the empty environment the root path is \<^verbatim>\<open>undefined/Desktop\<close>, not
  \<^verbatim>\<open>/Desktop\<close>.
\<close>

theorem unset_home_counterexample:
  "env_get [] ''HOME'' = None \<and> root_path [] = ''undefined/Desktop'' \<and> root_path [] \<noteq> ''/Desktop''"
  by (simp add: env_get_def root_path_def plus_string_def to_string_def)

text \<open>
  Claim C2, amended. If the variable \<^verbatim>\<open>HOME\<close> is not set, the root path is the relative
  path \<^verbatim>\<open>undefined/Desktop\<close>, and that string is what the walker is called with.
\<close>

theorem unset_home_root:
  assumes "env_get env ''HOME'' = None"
  shows "root_path env = ''undefined/Desktop'' \<and>
         example env walk =
           for_await (walk ''undefined/Desktop'' None)
             [EnvGet ''HOME'', WalkCall ''undefined/Desktop'' None]"
  using assms by (simp add: example_def root_path_def plus_string_def to_string_def Let_def)

theorem unset_home_root_witness:
  "env_get [(''PATH'', ''/usr/bin'')] ''HOME'' = None \<and>
   root_path [(''PATH'', ''/usr/bin'')] = ''undefined/Desktop'' \<and>
   example [(''PATH'', ''/usr/bin'')] (\<lambda>root opts. Throw root)
     = Some ([EnvGet ''HOME'', WalkCall ''undefined/Desktop'' None, Next],
             Uncaught ''undefined/Desktop'')"
proof -
  have unset: "env_get [(''PATH'', ''/usr/bin'')] ''HOME'' = None"
    by (simp add: env_get_def)
  show ?thesis
    using unset unset_home_root [OF unset, of "\<lambda>root opts. Throw root"]
    by (simp add: for_await.simps)
qed

text \<open>
  Claim C3. If the variable \<^verbatim>\<open>HOME\<close> has the value \<open>v\<close>, the root path is \<open>v\<close> followed by
  \<^verbatim>\<open>/Desktop\<close>, and the script is the loop over the walker's answer to exactly that
  string: whatever \<open>v\<close> is and whatever the walker does with it, nothing is checked first.
\<close>

theorem set_home_root:
  assumes "env_get env ''HOME'' = Some v"
  shows "root_path env = v @ ''/Desktop'' \<and>
         example env walk =
           for_await (walk (v @ ''/Desktop'') None)
             [EnvGet ''HOME'', WalkCall (v @ ''/Desktop'') None]"
  using assms by (simp add: example_def root_path_def plus_string_def to_string_def Let_def)

theorem set_home_root_witness:
  "env_get [(''HOME'', ''/home/ana'')] ''HOME'' = Some ''/home/ana'' \<and>
   root_path [(''HOME'', ''/home/ana'')] = ''/home/ana/Desktop'' \<and>
   example [(''HOME'', ''/home/ana'')] (\<lambda>root opts. Throw root)
     = Some ([EnvGet ''HOME'', WalkCall ''/home/ana/Desktop'' None, Next],
             Uncaught ''/home/ana/Desktop'')"
proof -
  have is_set: "env_get [(''HOME'', ''/home/ana'')] ''HOME'' = Some ''/home/ana''"
    by (simp add: env_get_def)
  show ?thesis
    using is_set set_home_root [OF is_set, of "\<lambda>root opts. Throw root"]
    by (simp add: for_await.simps)
qed

subsection \<open>C4: errors of the walker\<close>

text \<open>
  Claim C4. If the walker hands out the entries \<open>es\<close> and then rejects with \<open>err\<close>, the run
  ends uncaught with that same \<open>err\<close>. Its trace shows, for each entry in turn, the request
  and the entry's line (or nothing), and ends with the request that was rejected: every
  entry before the failure has its line, and nothing is written at or after the failure.
  Standard output holds exactly the lines of \<open>es\<close>.
\<close>

theorem walker_error_propagates:
  assumes "walk (root_path env) None = walk_of es (Some err)"
  shows "example env walk =
           Some ([EnvGet ''HOME'', WalkCall (root_path env) None] @
                 concat (map (\<lambda>e. Next #
                           (if isFile e then [ConsoleLog (''File: '' @ path e)]
                            else if isDirectory e then [ConsoleLog (''Directory: '' @ path e)]
                            else [])) es) @
                 [Next],
                 Uncaught err)
         \<and> map_option (stdout_of \<circ> fst) (example env walk) =
           Some (concat (map (\<lambda>e.
                   if isFile e then ''File: '' @ path e @ [CHR 0x0A]
                   else if isDirectory e then ''Directory: '' @ path e @ [CHR 0x0A]
                   else []) es))"
proof -
  have run: "example env walk =
      Some ([EnvGet ''HOME'', WalkCall (root_path env) None] @ concat (map iteration es) @ [Next],
            Uncaught err)"
    using example_walk_of [where walk = walk and env = env, OF assms] by (simp add: ending_def)
  have trace: "map iteration es =
      map (\<lambda>e. Next #
             (if isFile e then [ConsoleLog (''File: '' @ path e)]
              else if isDirectory e then [ConsoleLog (''Directory: '' @ path e)]
              else [])) es"
    by (simp add: iteration_events)
  have out: "stdout_of ([EnvGet ''HOME'', WalkCall (root_path env) None] @
                concat (map iteration es) @ [Next]) =
      concat (map (\<lambda>e.
                   if isFile e then ''File: '' @ path e @ [CHR 0x0A]
                   else if isDirectory e then ''Directory: '' @ path e @ [CHR 0x0A]
                   else []) es)"
    by (simp only: stdout_of_run stdout_of_iteration)
  show ?thesis
  proof
    show "example env walk =
           Some ([EnvGet ''HOME'', WalkCall (root_path env) None] @
                 concat (map (\<lambda>e. Next #
                           (if isFile e then [ConsoleLog (''File: '' @ path e)]
                            else if isDirectory e then [ConsoleLog (''Directory: '' @ path e)]
                            else [])) es) @
                 [Next],
                 Uncaught err)"
      using run by (simp only: trace)
    show "map_option (stdout_of \<circ> fst) (example env walk) =
           Some (concat (map (\<lambda>e.
                   if isFile e then ''File: '' @ path e @ [CHR 0x0A]
                   else if isDirectory e then ''Directory: '' @ path e @ [CHR 0x0A]
                   else []) es))"
      by (simp only: run out option.map comp_apply fst_conv)
  qed
qed

theorem walker_error_propagates_witness:
  "example [(''HOME'', ''/h'')]
     (\<lambda>root opts. walk_of
        [\<lparr>path = ''/h/Desktop'', isFile = False, isDirectory = True\<rparr>,
         \<lparr>path = ''/h/Desktop/a.txt'', isFile = True, isDirectory = False\<rparr>]
        (Some ''PermissionDenied''))
   = Some ([EnvGet ''HOME'', WalkCall ''/h/Desktop'' None,
            Next, ConsoleLog ''Directory: /h/Desktop'',
            Next, ConsoleLog ''File: /h/Desktop/a.txt'',
            Next],
           Uncaught ''PermissionDenied'')"
  using walker_error_propagates
    [of "\<lambda>root opts. walk_of
        [\<lparr>path = ''/h/Desktop'', isFile = False, isDirectory = True\<rparr>,
         \<lparr>path = ''/h/Desktop/a.txt'', isFile = True, isDirectory = False\<rparr>]
        (Some ''PermissionDenied'')"
        "[(''HOME'', ''/h'')]"
        "[\<lparr>path = ''/h/Desktop'', isFile = False, isDirectory = True\<rparr>,
         \<lparr>path = ''/h/Desktop/a.txt'', isFile = True, isDirectory = False\<rparr>]"
        "''PermissionDenied''"]
  by (simp add: root_path_def plus_string_def to_string_def env_get_def)

subsection \<open>C5: standard output as a whole\<close>

text \<open>
  Claim C5. On a walk that hands out the entries \<open>es\<close> and then ends (in either way), the run
  returns and its standard output is, for the entries that are a file or a directory and in
  the order of the walk, one line each, made of the label, the path and a newline, and
  nothing else.
\<close>

theorem stdout_complete:
  assumes "walk (root_path env) None = walk_of es fin"
  shows "map_option (stdout_of \<circ> fst) (example env walk) =
           Some (concat (map (\<lambda>e. (if isFile e then ''File: '' else ''Directory: '') @
                                    path e @ [CHR 0x0A])
                           (filter (\<lambda>e. isFile e \<or> isDirectory e) es)))"
  by (simp only: example_walk_of [where walk = walk and env = env, OF assms]
        option.map comp_apply fst_conv stdout_of_run stdout_of_iterations_filter)

theorem stdout_complete_witness:
  "map_option (stdout_of \<circ> fst)
     (example [(''HOME'', ''/h'')]
        (\<lambda>root opts. walk_of
           [\<lparr>path = ''/h/Desktop'', isFile = False, isDirectory = True\<rparr>,
            \<lparr>path = ''/h/Desktop/link'', isFile = False, isDirectory = False\<rparr>,
            \<lparr>path = ''/h/Desktop/a.txt'', isFile = True, isDirectory = False\<rparr>]
           (None :: unit option)))
   = Some (''Directory: /h/Desktop'' @ [CHR 0x0A] @ ''File: /h/Desktop/a.txt'' @ [CHR 0x0A])"
  using stdout_complete
    [of "\<lambda>root opts. walk_of
           [\<lparr>path = ''/h/Desktop'', isFile = False, isDirectory = True\<rparr>,
            \<lparr>path = ''/h/Desktop/link'', isFile = False, isDirectory = False\<rparr>,
            \<lparr>path = ''/h/Desktop/a.txt'', isFile = True, isDirectory = False\<rparr>]
           (None :: unit option)"
        "[(''HOME'', ''/h'')]"
        "[\<lparr>path = ''/h/Desktop'', isFile = False, isDirectory = True\<rparr>,
          \<lparr>path = ''/h/Desktop/link'', isFile = False, isDirectory = False\<rparr>,
          \<lparr>path = ''/h/Desktop/a.txt'', isFile = True, isDirectory = False\<rparr>]"
        None]
  by simp

subsection \<open>C6: the call of the walker\<close>

text \<open>
  Claim C6. The script applies the walker to the root path with the options argument
  absent, and the run is the loop over the iterator which that application returns, begun
  on the trace that records the reading of \<^verbatim>\<open>HOME\<close> and this call. The walker enters the
  run through that one application only: a second walker \<open>walk'\<close> that returns the same
  iterator for the root path with no options gives the same run, whatever it returns for
  any other root or any options object. On a walk that ends, the run returns and its trace
  holds exactly one call of the walker, with the root path as first argument and no
  options argument.
\<close>

theorem walker_called_once:
  "example env walk =
     for_await (walk (root_path env) None) [EnvGet ''HOME'', WalkCall (root_path env) None]
   \<and> (walk' (root_path env) None = walk (root_path env) None \<longrightarrow>
        example env walk' = example env walk)
   \<and> (walk (root_path env) None = walk_of es fin \<longrightarrow>
        map_option (walk_calls \<circ> fst) (example env walk) = Some [(root_path env, None)])"
proof (intro conjI impI)
  show "example env walk =
     for_await (walk (root_path env) None) [EnvGet ''HOME'', WalkCall (root_path env) None]"
    by (rule example_unfold)
next
  assume "walk' (root_path env) None = walk (root_path env) None"
  then show "example env walk' = example env walk"
    by (simp only: example_unfold)
next
  assume ends: "walk (root_path env) None = walk_of es fin"
  show "map_option (walk_calls \<circ> fst) (example env walk) = Some [(root_path env, None)]"
    by (simp only: example_walk_of [where walk = walk and env = env, OF ends]
          option.map comp_apply fst_conv walk_calls_run)
qed

theorem walker_called_once_witness:
  "example [(''HOME'', ''/h'')]
     (\<lambda>root opts. if root = ''/h/Desktop'' \<and> opts = None
        then walk_of [\<lparr>path = ''/h/Desktop/a.txt'', isFile = True, isDirectory = False\<rparr>] None
        else Throw ''wrong call'')
   = Some ([EnvGet ''HOME'', WalkCall ''/h/Desktop'' None,
            Next, ConsoleLog ''File: /h/Desktop/a.txt'', Next],
           Completed)
   \<and>
   example [(''HOME'', ''/h'')]
     (\<lambda>root opts.
        walk_of [\<lparr>path = ''/h/Desktop/a.txt'', isFile = True, isDirectory = False\<rparr>] None)
   = example [(''HOME'', ''/h'')]
     (\<lambda>root opts. if root = ''/h/Desktop'' \<and> opts = None
        then walk_of [\<lparr>path = ''/h/Desktop/a.txt'', isFile = True, isDirectory = False\<rparr>] None
        else Throw ''wrong call'')
   \<and>
   map_option (walk_calls \<circ> fst)
     (example [(''HOME'', ''/h'')]
        (\<lambda>root opts. if root = ''/h/Desktop'' \<and> opts = None
           then walk_of [\<lparr>path = ''/h/Desktop/a.txt'', isFile = True, isDirectory = False\<rparr>] None
           else Throw ''wrong call''))
   = Some [(''/h/Desktop'', None)]"
proof -
  let ?env = "[(''HOME'', ''/h'')]"
  let ?es = "[\<lparr>path = ''/h/Desktop/a.txt'', isFile = True, isDirectory = False\<rparr>]"
  let ?walk = "\<lambda>root opts. if root = ''/h/Desktop'' \<and> opts = None
            then walk_of ?es None else Throw ''wrong call''"
  let ?walk' = "\<lambda>(root :: string) (opts :: WalkOptions option).
            walk_of ?es (None :: string option)"
  note run = walker_called_once
      [where env = ?env and walk = ?walk and walk' = ?walk' and es = ?es and fin = None]
  have root: "root_path ?env = ''/h/Desktop''"
    by (simp add: root_path_def plus_string_def to_string_def env_get_def)
  have same: "?walk' (root_path ?env) None = ?walk (root_path ?env) None"
    by (simp add: root)
  have ends: "?walk (root_path ?env) None = walk_of ?es None"
    by (simp add: root)
  have loop: "for_await (walk_of ?es (None :: string option))
                 [EnvGet ''HOME'', WalkCall ''/h/Desktop'' None] =
      Some ([EnvGet ''HOME'', WalkCall ''/h/Desktop'' None,
             Next, ConsoleLog ''File: /h/Desktop/a.txt'', Next], Completed)"
    by (simp add: for_await.simps body_def console_log_def)
  have first: "example ?env ?walk =
      Some ([EnvGet ''HOME'', WalkCall ''/h/Desktop'' None,
             Next, ConsoleLog ''File: /h/Desktop/a.txt'', Next], Completed)"
    using run [THEN conjunct1] loop by (simp add: root)
  have second: "example ?env ?walk' = example ?env ?walk"
    using run same by blast
  have "map_option (walk_calls \<circ> fst) (example ?env ?walk) = Some [(root_path ?env, None)]"
    using run ends by blast
  then have third:
    "map_option (walk_calls \<circ> fst) (example ?env ?walk) = Some [(''/h/Desktop'', None)]"
    by (simp only: root)
  from first second third show ?thesis
    by (intro conjI)
qed

subsection \<open>C7: two runs\<close>

text \<open>
  Claim C7. Two runs whose walkers hand out the same entries in the same order both
  return, and with the same standard output, whatever the two environments are, whatever
  else the two walkers would do, and however each walk ends.
\<close>

theorem same_walk_same_stdout:
  assumes "walk1 (root_path env1) None = walk_of es fin1"
    and "walk2 (root_path env2) None = walk_of es fin2"
  shows "example env1 walk1 \<noteq> None \<and> example env2 walk2 \<noteq> None \<and>
         map_option (stdout_of \<circ> fst) (example env1 walk1) =
         map_option (stdout_of \<circ> fst) (example env2 walk2)"
  by (simp only: example_walk_of [where walk = walk1 and env = env1, OF assms(1)]
        example_walk_of [where walk = walk2 and env = env2, OF assms(2)]
        option.map comp_apply fst_conv stdout_of_run option.distinct simp_thms)

theorem same_walk_same_stdout_witness:
  "map_option (stdout_of \<circ> fst)
     (example [(''HOME'', ''/h'')]
        (\<lambda>root opts. walk_of
           [\<lparr>path = ''a.txt'', isFile = True, isDirectory = False\<rparr>] (None :: string option)))
   = Some (''File: a.txt'' @ [CHR 0x0A])
   \<and>
   map_option (stdout_of \<circ> fst)
     (example []
        (\<lambda>root opts. if opts = None
           then walk_of [\<lparr>path = ''a.txt'', isFile = True, isDirectory = False\<rparr>] (Some root)
           else Done))
   = Some (''File: a.txt'' @ [CHR 0x0A])"
  using same_walk_same_stdout
    [of "\<lambda>root opts. walk_of
           [\<lparr>path = ''a.txt'', isFile = True, isDirectory = False\<rparr>] (None :: string option)"
        "[(''HOME'', ''/h'')]"
        "[\<lparr>path = ''a.txt'', isFile = True, isDirectory = False\<rparr>]"
        None
        "\<lambda>root opts. if opts = None
           then walk_of [\<lparr>path = ''a.txt'', isFile = True, isDirectory = False\<rparr>] (Some root)
           else Done"
        "[]"
        "Some ''undefined/Desktop''"]
  by (simp add: example_def root_path_def plus_string_def to_string_def env_get_def
        for_await.simps body_def console_log_def stdout_of_def)

subsection \<open>C8: the order of requests and output\<close>

text \<open>
  Claim C8. On a walk that hands out the entries \<open>es\<close> and then reports exhaustion, the
  trace of the run is: the reading of \<^verbatim>\<open>HOME\<close>, the call of the walker, then for each entry
  of \<open>es\<close>, in order, one request followed at once by what the body does with that entry
  (its one line, or nothing), and at the end the request that is answered with exhaustion.
  So there is one request per entry and one more, each entry is dealt with before the next
  request, and none is dealt with twice or left out.
\<close>

theorem consumed_once_in_order:
  assumes "walk (root_path env) None = walk_of es None"
  shows "example env walk =
           Some ([EnvGet ''HOME'', WalkCall (root_path env) None] @
                 concat (map (\<lambda>e. Next # body e []) es) @
                 [Next],
                 Completed)
         \<and> map_option (\<lambda>r. length (filter (\<lambda>ev. ev = Next) (fst r))) (example env walk) =
           Some (Suc (length es))
         \<and> (\<forall>e. length (body e []) \<le> 1 \<and> Next \<notin> set (body e []))"
proof -
  have run: "example env walk =
      Some ([EnvGet ''HOME'', WalkCall (root_path env) None] @ concat (map iteration es) @ [Next],
            Completed)"
    using example_walk_of [where walk = walk and env = env, OF assms] by (simp add: ending_def)
  have turns: "map iteration es = map (\<lambda>e. Next # body e []) es"
    by (simp add: iteration_def body_def console_log_def)
  have first: "example env walk =
           Some ([EnvGet ''HOME'', WalkCall (root_path env) None] @
                 concat (map (\<lambda>e. Next # body e []) es) @
                 [Next],
                 Completed)"
    using run by (simp only: turns)
  have second: "map_option (\<lambda>r. length (filter (\<lambda>ev. ev = Next) (fst r))) (example env walk) =
           Some (Suc (length es))"
    by (simp only: run option.map fst_conv requests_of_run)
  have third: "\<forall>e. length (body e []) \<le> 1 \<and> Next \<notin> set (body e [])"
    by (simp add: body_def console_log_def)
  from first second third show ?thesis
    by (intro conjI)
qed

theorem consumed_once_in_order_witness:
  "example [(''HOME'', ''/h'')]
     (\<lambda>root opts. walk_of
        [\<lparr>path = ''/h/Desktop/a.txt'', isFile = True, isDirectory = False\<rparr>,
         \<lparr>path = ''/h/Desktop/link'', isFile = False, isDirectory = False\<rparr>,
         \<lparr>path = ''/h/Desktop/b'', isFile = False, isDirectory = True\<rparr>]
        (None :: unit option))
   = Some ([EnvGet ''HOME'', WalkCall ''/h/Desktop'' None,
            Next, ConsoleLog ''File: /h/Desktop/a.txt'',
            Next,
            Next, ConsoleLog ''Directory: /h/Desktop/b'',
            Next],
           Completed)"
  using consumed_once_in_order
    [of "\<lambda>root opts. walk_of
        [\<lparr>path = ''/h/Desktop/a.txt'', isFile = True, isDirectory = False\<rparr>,
         \<lparr>path = ''/h/Desktop/link'', isFile = False, isDirectory = False\<rparr>,
         \<lparr>path = ''/h/Desktop/b'', isFile = False, isDirectory = True\<rparr>]
        (None :: unit option)"
        "[(''HOME'', ''/h'')]"
        "[\<lparr>path = ''/h/Desktop/a.txt'', isFile = True, isDirectory = False\<rparr>,
         \<lparr>path = ''/h/Desktop/link'', isFile = False, isDirectory = False\<rparr>,
         \<lparr>path = ''/h/Desktop/b'', isFile = False, isDirectory = True\<rparr>]"]
  by (simp add: root_path_def plus_string_def to_string_def env_get_def body_def console_log_def)

subsection \<open>C9: a root that holds only files\<close>

text \<open>
  Claim C9. Take a walk that ends and in which every entry is a file, except that the root
  may appear among them as one more entry (\<open>root = Some r\<close>) or not at all (\<open>root = None\<close>).
  Then the run returns, and its lines are one \<^verbatim>\<open>File: <path>\<close> line per file, with the path
  the walker reported and in the walker's order, together with whatever the root's own entry
  gives in its place. At most one line begins with \<^verbatim>\<open>Directory: \<close>, and none does when the
  root is not handed out.
\<close>

theorem only_files:
  assumes "walk (root_path env) None =
             walk_of (fs1 @ (case root of None \<Rightarrow> [] | Some r \<Rightarrow> [r]) @ fs2) fin"
    and "\<forall>e\<in>set (fs1 @ fs2). isFile e"
  shows "\<exists>tr. example env walk = Some (tr, ending fin) \<and>
           lines_of tr =
             map (\<lambda>e. ''File: '' @ path e) fs1 @
             (case root of None \<Rightarrow> [] | Some r \<Rightarrow> lines_of (body r [])) @
             map (\<lambda>e. ''File: '' @ path e) fs2 \<and>
           length (filter (prefix ''Directory: '') (lines_of tr)) \<le>
             (case root of None \<Rightarrow> 0 | Some r \<Rightarrow> 1)"
proof -
  let ?es = "fs1 @ (case root of None \<Rightarrow> [] | Some r \<Rightarrow> [r]) @ fs2"
  let ?tr = "[EnvGet ''HOME'', WalkCall (root_path env) None] @ concat (map iteration ?es) @ [Next]"
  have files1: "\<forall>e\<in>set fs1. isFile e" and files2: "\<forall>e\<in>set fs2. isFile e"
    using assms(2) by simp_all
  have run: "example env walk = Some (?tr, ending fin)"
    by (rule example_walk_of [where walk = walk and env = env, OF assms(1)])
  have "lines_of ?tr = concat (map (\<lambda>e. lines_of (iteration e)) ?es)"
    by (rule lines_of_run)
  also have "\<dots> = concat (map (\<lambda>e. lines_of (iteration e)) fs1) @
                   (case root of None \<Rightarrow> [] | Some r \<Rightarrow> lines_of (body r [])) @
                   concat (map (\<lambda>e. lines_of (iteration e)) fs2)"
    by (simp add: lines_of_body split: option.split)
  finally have lines: "lines_of ?tr =
             map (\<lambda>e. ''File: '' @ path e) fs1 @
             (case root of None \<Rightarrow> [] | Some r \<Rightarrow> lines_of (body r [])) @
             map (\<lambda>e. ''File: '' @ path e) fs2"
    by (simp only: lines_of_file_iterations [OF files1] lines_of_file_iterations [OF files2])
  have count: "length (filter (prefix ''Directory: '') (lines_of ?tr)) \<le>
             (case root of None \<Rightarrow> 0 | Some r \<Rightarrow> 1)"
    using directory_lines_of_entry
    by (simp only: lines filter_append no_directory_line_of_files append_Nil append_Nil2
          lines_of_body)
       (simp split: option.split)
  from run lines count show ?thesis
    by blast
qed

theorem only_files_witness:
  "example [(''HOME'', ''/h'')]
     (\<lambda>root opts. walk_of
        [\<lparr>path = ''/h/Desktop'', isFile = False, isDirectory = True\<rparr>,
         \<lparr>path = ''/h/Desktop/a.txt'', isFile = True, isDirectory = False\<rparr>,
         \<lparr>path = ''/h/Desktop/b.txt'', isFile = True, isDirectory = False\<rparr>]
        (None :: unit option))
   = Some ([EnvGet ''HOME'', WalkCall ''/h/Desktop'' None,
            Next, ConsoleLog ''Directory: /h/Desktop'',
            Next, ConsoleLog ''File: /h/Desktop/a.txt'',
            Next, ConsoleLog ''File: /h/Desktop/b.txt'',
            Next],
           Completed)"
  using only_files
    [of "\<lambda>root opts. walk_of
        [\<lparr>path = ''/h/Desktop'', isFile = False, isDirectory = True\<rparr>,
         \<lparr>path = ''/h/Desktop/a.txt'', isFile = True, isDirectory = False\<rparr>,
         \<lparr>path = ''/h/Desktop/b.txt'', isFile = True, isDirectory = False\<rparr>]
        (None :: unit option)"
        "[(''HOME'', ''/h'')]"
        "[]"
        "Some \<lparr>path = ''/h/Desktop'', isFile = False, isDirectory = True\<rparr>"
        "[\<lparr>path = ''/h/Desktop/a.txt'', isFile = True, isDirectory = False\<rparr>,
          \<lparr>path = ''/h/Desktop/b.txt'', isFile = True, isDirectory = False\<rparr>]"
        None]
  by (simp add: example_def root_path_def plus_string_def to_string_def env_get_def
        for_await.simps body_def console_log_def)

subsection \<open>C10: an entry with both flags\<close>

text \<open>
  Claim C10. For an entry whose file flag and directory flag are both true, the loop
  records its request and the one event for \<^verbatim>\<open>File: <path>\<close>, and goes on; the body gives
  exactly that one line, and the line \<^verbatim>\<open>Directory: <path>\<close> is not among its lines.
\<close>

theorem file_before_directory:
  assumes "isFile entry" and "isDirectory entry"
  shows "for_await (Yield entry it) tr =
           for_await it (tr @ [Next, ConsoleLog (''File: '' @ path entry)]) \<and>
         lines_of (body entry []) = [''File: '' @ path entry] \<and>
         ''Directory: '' @ path entry \<notin> set (lines_of (body entry []))"
proof (intro conjI)
  show "for_await (Yield entry it) tr =
          for_await it (tr @ [Next, ConsoleLog (''File: '' @ path entry)])"
    using assms(1) by (subst for_await.simps) (simp add: body_after_request iteration_events)
  show "lines_of (body entry []) = [''File: '' @ path entry]"
    using assms(1) by (simp add: lines_of_body lines_of_iteration)
  then show "''Directory: '' @ path entry \<notin> set (lines_of (body entry []))"
    by simp
qed

theorem file_before_directory_witness:
  "for_await (Yield \<lparr>path = ''/h/Desktop/x'', isFile = True, isDirectory = True\<rparr>
                (Done :: unit walk_iter)) []
     = Some ([Next, ConsoleLog ''File: /h/Desktop/x'', Next], Completed) \<and>
   lines_of (body \<lparr>path = ''/h/Desktop/x'', isFile = True, isDirectory = True\<rparr> [])
     = [''File: /h/Desktop/x'']"
  using file_before_directory
    [of "\<lparr>path = ''/h/Desktop/x'', isFile = True, isDirectory = True\<rparr>"
        "Done :: unit walk_iter" "[]"]
  by (simp add: for_await.simps)

end
